theory Spec2Isabelle
  imports Main "HOL-Library.Word" "HOL-Library.Char_ord"
begin

unbundle bit_operations_syntax

section \<open>resetprop: the property store of \<^verbatim>\<open>native/src/resetprop/resetprop.cpp\<close>\<close>

text \<open>
  The development embeds the functions of \<^verbatim>\<open>resetprop.cpp\<close> as HOL functions.
  A C string is the list of its bytes before the terminating NUL, so \<^verbatim>\<open>strlen\<close> is
  \<open>length\<close>. The logging macros (LOGD, LOGW, LOGE) write to the log only and are left
  out of the model.
\<close>

subsection \<open>The name validator\<close>

text \<open>
  The loop of \<^verbatim>\<open>check_legal_property_name\<close>, with the index \<open>i\<close> of type
  \<^verbatim>\<open>size_t\<close>. The comparisons \<^verbatim>\<open>name[i] >= 'a'\<close> and so on are on bytes; a byte
  above 127 lies outside all three ranges whether \<^verbatim>\<open>char\<close> is signed or not, so the
  unsigned order on \<open>char\<close> gives the result of both. The read \<^verbatim>\<open>name[i-1]\<close> is
  reached only with \<open>0 < i\<close>, since the caller has rejected a leading dot.
\<close>

function legal_loop :: "string \<Rightarrow> nat \<Rightarrow> nat \<Rightarrow> bool" where
  "legal_loop name namelen i =
     (if i < namelen then
        (if name ! i = CHR ''.'' then
           (if name ! (i - 1) = CHR ''.'' then False
            else legal_loop name namelen (i + 1))
         else if name ! i = CHR ''_'' \<or> name ! i = CHR ''-'' \<or> name ! i = CHR ''@''
                 \<or> name ! i = CHR '':'' then legal_loop name namelen (i + 1)
         else if CHR ''a'' \<le> name ! i \<and> name ! i \<le> CHR ''z'' then legal_loop name namelen (i + 1)
         else if CHR ''A'' \<le> name ! i \<and> name ! i \<le> CHR ''Z'' then legal_loop name namelen (i + 1)
         else if CHR ''0'' \<le> name ! i \<and> name ! i \<le> CHR ''9'' then legal_loop name namelen (i + 1)
         else False)
      else True)"
  by pat_completeness auto
termination
  by (relation "measure (\<lambda>(name, namelen, i). namelen - i)") auto

declare legal_loop.simps [simp del]

text \<open>
  \<^verbatim>\<open>int namelen = strlen(name)\<close>: the length is narrowed to a 32-bit signed integer.
  Every index read below is smaller than the length of the name.
\<close>

definition check_legal_property_name :: "string \<Rightarrow> bool" where
  "check_legal_property_name name =
     (let namelen = sint (word_of_nat (length name) :: 32 word) in
      if namelen < 1 then False
      else if name ! 0 = CHR ''.'' then False
      else if name ! nat (namelen - 1) = CHR ''.'' then False
      else legal_loop name (nat namelen) 0)"

text \<open>
  The grammar in the words of the specification: an alphanumeric or one of
  \<^verbatim>\<open>. - @ : _\<close>; not empty; no dot first or last; no two dots in a row.
\<close>

definition is_alnum_or_punct :: "char \<Rightarrow> bool" where
  "is_alnum_or_punct c =
     ((CHR ''a'' \<le> c \<and> c \<le> CHR ''z'') \<or> (CHR ''A'' \<le> c \<and> c \<le> CHR ''Z'')
      \<or> (CHR ''0'' \<le> c \<and> c \<le> CHR ''9'')
      \<or> c = CHR ''.'' \<or> c = CHR ''-'' \<or> c = CHR ''@'' \<or> c = CHR '':'' \<or> c = CHR ''_'')"

definition spec_legal_name :: "string \<Rightarrow> bool" where
  "spec_legal_name name =
     (name \<noteq> [] \<and> hd name \<noteq> CHR ''.'' \<and> last name \<noteq> CHR ''.''
      \<and> (CHR ''.'', CHR ''.'') \<notin> set (zip name (tl name))
      \<and> list_all is_alnum_or_punct name)"

subsection \<open>Flags\<close>

text \<open>
  \<^verbatim>\<open>struct PropFlags\<close> holds one \<^verbatim>\<open>uint32_t\<close>, initially 0; the field is called
  \<open>bits\<close> here, so that \<open>flags\<close> stays free for the parameter of that name.
\<close>

record PropFlags =
  bits :: "32 word"

definition PropFlags_init :: PropFlags where
  "PropFlags_init = \<lparr>bits = 0\<rparr>"

definition setSkipSvc :: "PropFlags \<Rightarrow> PropFlags" where
  "setSkipSvc f = f\<lparr>bits := bits f OR 1\<rparr>"

definition setPersist :: "PropFlags \<Rightarrow> PropFlags" where
  "setPersist f = f\<lparr>bits := bits f OR push_bit 1 1\<rparr>"

definition setContext :: "PropFlags \<Rightarrow> PropFlags" where
  "setContext f = f\<lparr>bits := bits f OR push_bit 2 1\<rparr>"

definition isSkipSvc :: "PropFlags \<Rightarrow> bool" where
  "isSkipSvc f = (bits f AND 1 \<noteq> 0)"

definition isPersist :: "PropFlags \<Rightarrow> bool" where
  "isPersist f = (bits f AND push_bit 1 1 \<noteq> 0)"

definition isContext :: "PropFlags \<Rightarrow> bool" where
  "isContext f = (bits f AND push_bit 2 1 \<noteq> 0)"

text \<open>
  Modelled from the spec: \<^verbatim>\<open>str_starts\<close> is declared in \<^verbatim>\<open>base.hpp\<close>, which is
  not among the sources; the specification calls it "the name carries the prefix".
\<close>

definition str_starts :: "string \<Rightarrow> string \<Rightarrow> bool" where
  "str_starts s ss = (take (length ss) s = ss)"

subsection \<open>The two stores, as the code sees them\<close>

text \<open>
  The live property table and the persisted store are external. The code reaches them
  through the functions below only, so they are parameters of the model: \<open>'w\<close> is the
  state of everything outside the process (both stores, the property service, the file
  system) and \<open>'h\<close> the type of a \<^verbatim>\<open>prop_info\<close> pointer that is not null. A function
  that can change the outside returns the new state with its result. The fields named
  \<open>internal_\<dots>\<close> stand for the functions the source writes with two leading
  underscores (\<^verbatim>\<open>__system_property_find\<close> and so on), which are linked into the binary; the
  fields without the prefix are the function pointers that \<^verbatim>\<open>Initialize\<close> resolves (or,
  with \<^verbatim>\<open>APPLET_STUB_MAIN\<close>, other names of the same functions).
  \<^verbatim>\<open>system_property_read_callback\<close> may be null, which is \<open>None\<close>.
  \<^verbatim>\<open>persist_getprop\<close>, \<^verbatim>\<open>persist_getprops\<close>, \<^verbatim>\<open>persist_deleteprop\<close> (of
  \<^verbatim>\<open>prop.hpp\<close>) and \<^verbatim>\<open>parse_prop_file\<close> (of \<^verbatim>\<open>base.hpp\<close>) are external in the same
  way; \<open>parse_prop_file\<close> here gives the pairs of the file in file order.
\<close>

record ('w, 'h) adapter =
  applet_stub_main :: bool
  system_property_set :: "string \<Rightarrow> string \<Rightarrow> 'w \<Rightarrow> int \<times> 'w"
  system_property_read :: "'h \<Rightarrow> 'w \<Rightarrow> string \<times> string"
  system_property_find :: "string \<Rightarrow> 'w \<Rightarrow> 'h option"
  system_property_read_callback :: "('h \<Rightarrow> 'w \<Rightarrow> string \<times> string) option"
  system_property_foreach :: "'w \<Rightarrow> 'h list"
  internal_system_property_find :: "string \<Rightarrow> 'w \<Rightarrow> 'h option"
  internal_system_property_delete :: "string \<Rightarrow> bool \<Rightarrow> 'w \<Rightarrow> int \<times> 'w"
  internal_system_property_update :: "'h \<Rightarrow> string \<Rightarrow> 'w \<Rightarrow> int \<times> 'w"
  internal_system_property_add :: "string \<Rightarrow> string \<Rightarrow> 'w \<Rightarrow> int \<times> 'w"
  internal_system_property_get_context :: "string \<Rightarrow> 'w \<Rightarrow> string option"
  internal_system_properties_init :: "'w \<Rightarrow> int \<times> 'w"
  persist_getprop :: "string \<Rightarrow> 'w \<Rightarrow> string"
  persist_getprops :: "'w \<Rightarrow> (string \<times> string) list"
  persist_deleteprop :: "string \<Rightarrow> 'w \<Rightarrow> bool \<times> 'w"
  parse_prop_file :: "string \<Rightarrow> 'w \<Rightarrow> (string \<times> string) list"

text \<open>Every call that leaves the process is recorded, in the order the code makes it.\<close>

datatype 'h call =
    Call_set string string
  | Call_read 'h
  | Call_find string
  | Call_read_callback 'h
  | Call_foreach
  | Call_internal_find string
  | Call_internal_delete string bool
  | Call_internal_update 'h string
  | Call_internal_add string string
  | Call_internal_get_context string
  | Call_internal_init
  | Call_persist_getprop string
  | Call_persist_getprops
  | Call_persist_deleteprop string
  | Call_parse_prop_file string
  | Call_dlsym string

text \<open>
  The state a function runs in: the outside, the calls made so far, and what has been
  written to the standard output (one element for each \<^verbatim>\<open>printf\<close>).
\<close>

record ('w, 'h) proc =
  world :: 'w
  calls :: "'h call list"
  out :: "string list"

definition query :: "'h call \<Rightarrow> ('w \<Rightarrow> 'r) \<Rightarrow> ('w, 'h) proc \<Rightarrow> 'r \<times> ('w, 'h) proc" where
  "query c f s = (f (world s), s\<lparr>calls := calls s @ [c]\<rparr>)"

definition effect :: "'h call \<Rightarrow> ('w \<Rightarrow> 'r \<times> 'w) \<Rightarrow> ('w, 'h) proc \<Rightarrow> 'r \<times> ('w, 'h) proc" where
  "effect c f s = (fst (f (world s)), s\<lparr>world := snd (f (world s)), calls := calls s @ [c]\<rparr>)"



definition new_calls :: "('w, 'h) proc \<Rightarrow> ('w, 'h) proc \<Rightarrow> 'h call list" where
  "new_calls s s' = drop (length (calls s)) (calls s')"

subsection \<open>Reading one property\<close>

text \<open>
  \<^verbatim>\<open>read_prop_with_cb\<close> hands the name and the value it read to the \<^verbatim>\<open>exec\<close> of its
  callback object; here it returns the pair and the caller applies \<^verbatim>\<open>exec\<close>. In the
  second branch the two buffers start empty and \<^verbatim>\<open>system_property_read\<close> fills them.
\<close>

definition read_prop_with_cb ::
    "('w, 'h) adapter \<Rightarrow> 'h \<Rightarrow> ('w, 'h) proc \<Rightarrow> (string \<times> string) \<times> ('w, 'h) proc" where
  "read_prop_with_cb A pi s =
     (case system_property_read_callback A of
        Some rd \<Rightarrow> query (Call_read_callback pi) (rd pi) s
      | None \<Rightarrow> query (Call_read pi) (system_property_read A pi) s)"

text \<open>\<^verbatim>\<open>prop_to_string::exec\<close> stores the value in the string it refers to.\<close>

definition prop_to_string_exec :: "string \<Rightarrow> string \<Rightarrow> string \<Rightarrow> string" where
  "prop_to_string_exec name value val = value"

text \<open>\<^verbatim>\<open>__system_property_get_context(name) ?: ""\<close>\<close>

definition get_context :: "('w, 'h) adapter \<Rightarrow> string \<Rightarrow> ('w, 'h) proc \<Rightarrow> string \<times> ('w, 'h) proc" where
  "get_context A name s =
     (let (c, s1) = query (Call_internal_get_context name)
                      (internal_system_property_get_context A name) s
      in (case c of None \<Rightarrow> '''' | Some v \<Rightarrow> v, s1))"

subsection \<open>set, get, delete\<close>

definition set_prop ::
    "('w, 'h) adapter \<Rightarrow> string \<Rightarrow> string \<Rightarrow> PropFlags \<Rightarrow> ('w, 'h) proc \<Rightarrow> int \<times> ('w, 'h) proc" where
  "set_prop A name value flags s =
     (if \<not> check_legal_property_name name then (1, s)
      else
        let (pi, s1) = query (Call_internal_find name) (internal_system_property_find A name) s;
            (pi, s2) =
              (if pi \<noteq> None \<and> str_starts name ''ro.''
               then (None, snd (effect (Call_internal_delete name False)
                                  (internal_system_property_delete A name False) s1))
               else (pi, s1))
        in case pi of
             Some p \<Rightarrow>
               if isSkipSvc flags
               then effect (Call_internal_update p value) (internal_system_property_update A p value) s2
               else effect (Call_set name value) (system_property_set A name value) s2
           | None \<Rightarrow>
               if isSkipSvc flags
               then effect (Call_internal_add name value) (internal_system_property_add A name value) s2
               else effect (Call_set name value) (system_property_set A name value) s2)"

definition get_prop ::
    "('w, 'h) adapter \<Rightarrow> string \<Rightarrow> PropFlags \<Rightarrow> ('w, 'h) proc \<Rightarrow> string \<times> ('w, 'h) proc" where
  "get_prop A name flags s =
     (if \<not> check_legal_property_name name then ('''', s)
      else if isContext flags then get_context A name s
      else
        let (pi, s1) = query (Call_find name) (system_property_find A name) s
        in case pi of
             None \<Rightarrow> ('''', s1)
           | Some p \<Rightarrow>
               let ((n, v), s2) = read_prop_with_cb A p s1;
                   val = prop_to_string_exec n v ''''
               in if val = [] \<and> isPersist flags \<and> str_starts name ''persist.''
                  then query (Call_persist_getprop name) (persist_getprop A name) s2
                  else (val, s2))"

definition delete_prop ::
    "('w, 'h) adapter \<Rightarrow> string \<Rightarrow> PropFlags \<Rightarrow> ('w, 'h) proc \<Rightarrow> int \<times> ('w, 'h) proc" where
  "delete_prop A name flags s =
     (if \<not> check_legal_property_name name then (1, s)
      else
        let (ret, s1) = effect (Call_internal_delete name True)
                          (internal_system_property_delete A name True) s
        in if isPersist flags \<and> str_starts name ''persist.''
           then let (ok, s2) = effect (Call_persist_deleteprop name) (persist_deleteprop A name) s1
                in (if ok then 0 else ret, s2)
           else (ret, s1))"

subsection \<open>Enumeration\<close>

text \<open>
  Modelled from the spec: \<^verbatim>\<open>prop_list\<close> and \<^verbatim>\<open>prop_collector\<close> are declared in
  \<^verbatim>\<open>prop.hpp\<close>, which is not among the sources. The specification's Property List is
  "an ordered mapping from name to value, insertion order preserved", with unique keys,
  where "existing keys are not overwritten": a list of pairs, and an \<^verbatim>\<open>exec\<close> that
  appends a pair unless the name is already there.
\<close>

type_synonym prop_list = "(string \<times> string) list"

definition prop_collector_exec :: "string \<Rightarrow> string \<Rightarrow> prop_list \<Rightarrow> prop_list" where
  "prop_collector_exec name value list =
     (if name \<in> set (map fst list) then list else list @ [(name, value)])"

text \<open>
  \<^verbatim>\<open>system_property_foreach(read_prop_with_cb, &collector)\<close>: the live store calls
  \<^verbatim>\<open>read_prop_with_cb\<close> on each of its entries in turn.
\<close>

fun foreach_read ::
    "('w, 'h) adapter \<Rightarrow> 'h list \<Rightarrow> prop_list \<Rightarrow> ('w, 'h) proc \<Rightarrow> prop_list \<times> ('w, 'h) proc" where
  "foreach_read A [] list s = (list, s)"
| "foreach_read A (pi # pis) list s =
     (let ((name, value), s1) = read_prop_with_cb A pi s
      in foreach_read A pis (prop_collector_exec name value list) s1)"

text \<open>\<^verbatim>\<open>persist_getprops(&collector)\<close> calls \<^verbatim>\<open>exec\<close> on each persisted entry in turn.\<close>

fun collect_all :: "(string \<times> string) list \<Rightarrow> prop_list \<Rightarrow> prop_list" where
  "collect_all [] list = list"
| "collect_all ((name, value) # rest) list = collect_all rest (prop_collector_exec name value list)"

definition printf_line :: "string \<Rightarrow> string \<Rightarrow> string" where
  "printf_line key v = ''['' @ key @ '']: ['' @ v @ '']'' @ [CHR 0x0A]"

fun print_loop ::
    "('w, 'h) adapter \<Rightarrow> PropFlags \<Rightarrow> prop_list \<Rightarrow> ('w, 'h) proc \<Rightarrow> ('w, 'h) proc" where
  "print_loop A flags [] s = s"
| "print_loop A flags ((key, val) # rest) s =
     (let (v, s1) = (if isContext flags then get_context A key s else (val, s))
      in print_loop A flags rest (s1\<lparr>out := out s1 @ [printf_line key v]\<rparr>))"

definition print_props :: "('w, 'h) adapter \<Rightarrow> PropFlags \<Rightarrow> ('w, 'h) proc \<Rightarrow> ('w, 'h) proc" where
  "print_props A flags s =
     (let (pis, s1) = query Call_foreach (system_property_foreach A) s;
          (list, s2) = foreach_read A pis [] s1;
          (list, s3) =
            (if isPersist flags
             then let (ps, s') = query Call_persist_getprops (persist_getprops A) s2
                  in (collect_all ps list, s')
             else (list, s2))
      in print_loop A flags list s3)"

subsection \<open>Loading a file\<close>

text \<open>
  Modelled from the spec: \<^verbatim>\<open>parse_prop_file\<close> of \<^verbatim>\<open>base.hpp\<close> is not among the
  sources. It "parses the file into an ordered sequence of (name, value) pairs" and
  hands each pair to the callback in file order; the callback's result says whether to go
  on with the next line.
\<close>

fun parse_prop_file_loop ::
    "(string \<Rightarrow> string \<Rightarrow> 's \<Rightarrow> bool \<times> 's) \<Rightarrow> (string \<times> string) list \<Rightarrow> 's \<Rightarrow> 's" where
  "parse_prop_file_loop fn [] s = s"
| "parse_prop_file_loop fn ((key, val) # rest) s =
     (let (go_on, s1) = fn key val s
      in if go_on then parse_prop_file_loop fn rest s1 else s1)"

text \<open>The callback of \<^verbatim>\<open>load_file\<close> drops the result of \<^verbatim>\<open>set_prop\<close> and returns true.\<close>

definition load_file :: "('w, 'h) adapter \<Rightarrow> string \<Rightarrow> PropFlags \<Rightarrow> ('w, 'h) proc \<Rightarrow> ('w, 'h) proc" where
  "load_file A filename flags s =
     (let (pairs, s1) = query (Call_parse_prop_file filename) (parse_prop_file A filename) s
      in parse_prop_file_loop (\<lambda>key val t. (True, snd (set_prop A key val flags t))) pairs s1)"

subsection \<open>Initialisation\<close>

text \<open>
  The constructor of \<^verbatim>\<open>struct Initialize\<close>: without \<^verbatim>\<open>APPLET_STUB_MAIN\<close> it resolves
  the five platform functions, and in both configurations it calls
  \<^verbatim>\<open>__system_properties_init\<close>, whose status is only logged.
\<close>

definition Initialize :: "('w, 'h) adapter \<Rightarrow> ('w, 'h) proc \<Rightarrow> ('w, 'h) proc" where
  "Initialize A s =
     (let s1 = (if applet_stub_main A then s
                else s\<lparr>calls := calls s @
                       [Call_dlsym ''__system_property_set'', Call_dlsym ''__system_property_read'',
                        Call_dlsym ''__system_property_find'',
                        Call_dlsym ''__system_property_read_callback'',
                        Call_dlsym ''__system_property_foreach'']\<rparr>)
      in snd (effect Call_internal_init (internal_system_properties_init A) s1))"

text \<open>
  \<^verbatim>\<open>static void InitOnce() { struct Initialize init; }\<close>: \<open>init\<close> is a local variable
  with automatic storage, so each call constructs it.
\<close>

definition InitOnce :: "('w, 'h) adapter \<Rightarrow> ('w, 'h) proc \<Rightarrow> ('w, 'h) proc" where
  "InitOnce A s = Initialize A s"

definition init_count :: "('w, 'h) proc \<Rightarrow> nat" where
  "init_count s = length (filter (\<lambda>c. c = Call_internal_init) (calls s))"

subsection \<open>The high-level API\<close>

text \<open>
  The four functions at the end of the file share their names with the static functions
  above (they differ in the type of the last parameter); here they carry the prefix
  \<open>api_\<close>.
\<close>

definition api_get_prop ::
    "('w, 'h) adapter \<Rightarrow> string \<Rightarrow> bool \<Rightarrow> ('w, 'h) proc \<Rightarrow> string \<times> ('w, 'h) proc" where
  "api_get_prop A name persist s =
     (let s1 = InitOnce A s;
          flags = (if persist then setPersist PropFlags_init else PropFlags_init)
      in get_prop A name flags s1)"

definition api_delete_prop ::
    "('w, 'h) adapter \<Rightarrow> string \<Rightarrow> bool \<Rightarrow> ('w, 'h) proc \<Rightarrow> int \<times> ('w, 'h) proc" where
  "api_delete_prop A name persist s =
     (let s1 = InitOnce A s;
          flags = (if persist then setPersist PropFlags_init else PropFlags_init)
      in delete_prop A name flags s1)"

definition api_set_prop ::
    "('w, 'h) adapter \<Rightarrow> string \<Rightarrow> string \<Rightarrow> bool \<Rightarrow> ('w, 'h) proc \<Rightarrow> int \<times> ('w, 'h) proc" where
  "api_set_prop A name value skip_svc s =
     (let s1 = InitOnce A s;
          flags = (if skip_svc then setSkipSvc PropFlags_init else PropFlags_init)
      in set_prop A name value flags s1)"

definition load_prop_file ::
    "('w, 'h) adapter \<Rightarrow> string \<Rightarrow> bool \<Rightarrow> ('w, 'h) proc \<Rightarrow> ('w, 'h) proc" where
  "load_prop_file A filename skip_svc s =
     (let s1 = InitOnce A s;
          flags = (if skip_svc then setSkipSvc PropFlags_init else PropFlags_init)
      in load_file A filename flags s1)"

subsection \<open>The command line\<close>

text \<open>
  \<^verbatim>\<open>usage\<close> ends the process with \<^verbatim>\<open>exit(1)\<close>; a function that may call it returns
  \<open>Exit 1\<close> there, and \<open>Return r\<close> when it returns \<open>r\<close>.
\<close>

datatype outcome = Exit int | Return int

record parse_state =
  ps_flags :: PropFlags
  prop_file :: "string option"
  prop_to_rm :: "string option"

text \<open>
  The macro \<^verbatim>\<open>consume_next\<close>: \<open>argv\<close> is what is left of the arguments, the option
  being read first, so \<open>argc\<close> is its length. \<open>None\<close> is the call of \<^verbatim>\<open>usage\<close>.
\<close>

definition consume_next :: "string list \<Rightarrow> string option" where
  "consume_next argv = (if length argv \<noteq> 2 then None else Some (argv ! 1))"

text \<open>
  The \<^verbatim>\<open>for\<close> loop over the characters of \<^verbatim>\<open>argv[0]\<close> from index 1; the end of the
  list is the terminating NUL. The boolean is \<^verbatim>\<open>stop_parse\<close>. The option
  \<^verbatim>\<open>-v\<close> changes the log level only.
\<close>

fun scan_option ::
    "string list \<Rightarrow> string \<Rightarrow> parse_state \<times> bool \<Rightarrow> (parse_state \<times> bool) option" where
  "scan_option argv [] (st, stop) = Some (st, stop)"
| "scan_option argv (c # cs) (st, stop) =
     (if c = CHR ''-'' then
        (if hd argv = ''--file'' then
           (case consume_next argv of None \<Rightarrow> None
            | Some v \<Rightarrow> Some (st\<lparr>prop_file := Some v\<rparr>, True))
         else if hd argv = ''--delete'' then
           (case consume_next argv of None \<Rightarrow> None
            | Some v \<Rightarrow> Some (st\<lparr>prop_to_rm := Some v\<rparr>, True))
         else None)
      else if c = CHR ''d'' then
        (case consume_next argv of None \<Rightarrow> None
         | Some v \<Rightarrow> scan_option argv cs (st\<lparr>prop_to_rm := Some v\<rparr>, True))
      else if c = CHR ''f'' then
        (case consume_next argv of None \<Rightarrow> None
         | Some v \<Rightarrow> scan_option argv cs (st\<lparr>prop_file := Some v\<rparr>, True))
      else if c = CHR ''n'' then scan_option argv cs (st\<lparr>ps_flags := setSkipSvc (ps_flags st)\<rparr>, stop)
      else if c = CHR ''p'' then scan_option argv cs (st\<lparr>ps_flags := setPersist (ps_flags st)\<rparr>, stop)
      else if c = CHR ''v'' then scan_option argv cs (st, stop)
      else if c = CHR ''Z'' then scan_option argv cs (st\<lparr>ps_flags := setContext (ps_flags st)\<rparr>, stop)
      else None)"

text \<open>The \<^verbatim>\<open>while\<close> loop: it returns the arguments that are left, or \<open>None\<close> for \<^verbatim>\<open>usage\<close>.\<close>

fun parse_options :: "string list \<Rightarrow> parse_state \<Rightarrow> (parse_state \<times> string list) option" where
  "parse_options [] st = Some (st, [])"
| "parse_options (a # rest) st =
     (if take 1 a = ''-'' then
        (case scan_option (a # rest) (drop 1 a) (st, False) of
           None \<Rightarrow> None
         | Some (st1, stop) \<Rightarrow> if stop then Some (st1, rest) else parse_options rest st1)
      else Some (st, a # rest))"

text \<open>\<^verbatim>\<open>resetprop_main\<close>; \<open>argv\<close> holds the name of the program and the arguments.\<close>

definition resetprop_main ::
    "('w, 'h) adapter \<Rightarrow> string list \<Rightarrow> ('w, 'h) proc \<Rightarrow> outcome \<times> ('w, 'h) proc" where
  "resetprop_main A argv s =
     (case parse_options (tl argv) \<lparr>ps_flags = PropFlags_init, prop_file = None, prop_to_rm = None\<rparr> of
        None \<Rightarrow> (Exit 1, s)
      | Some (st, rest) \<Rightarrow>
          let s1 = InitOnce A s; flags = ps_flags st in
          case prop_to_rm st of
            Some name \<Rightarrow> (let (r, s2) = delete_prop A name flags s1 in (Return r, s2))
          | None \<Rightarrow>
             (case prop_file st of
                Some file \<Rightarrow> (Return 0, load_file A file flags s1)
              | None \<Rightarrow>
                 (case rest of
                    [] \<Rightarrow> (Return 0, print_props A flags s1)
                  | [name] \<Rightarrow>
                      (let (val, s2) = get_prop A name flags s1
                       in if val = [] then (Return 1, s2)
                          else (Return 0, s2\<lparr>out := out s2 @ [val @ [CHR 0x0A]]\<rparr>))
                  | [name, value] \<Rightarrow>
                      (let (r, s2) = set_prop A name value flags s1 in (Return r, s2))
                  | _ \<Rightarrow> (Exit 1, s1))))"

subsection \<open>A client of the entry points\<close>

datatype entry =
    Main "string list"
  | Get_prop string bool
  | Delete_prop string bool
  | Set_prop string string bool
  | Load_prop_file string bool

text \<open>One process calls entry points one after the other; an exit ends it.\<close>

fun run :: "('w, 'h) adapter \<Rightarrow> entry list \<Rightarrow> ('w, 'h) proc \<Rightarrow> ('w, 'h) proc" where
  "run A [] s = s"
| "run A (Main argv # es) s =
     (case resetprop_main A argv s of
        (Exit r, s1) \<Rightarrow> s1
      | (Return r, s1) \<Rightarrow> run A es s1)"
| "run A (Get_prop name persist # es) s = run A es (snd (api_get_prop A name persist s))"
| "run A (Delete_prop name persist # es) s = run A es (snd (api_delete_prop A name persist s))"
| "run A (Set_prop name value skip_svc # es) s = run A es (snd (api_set_prop A name value skip_svc s))"
| "run A (Load_prop_file filename skip_svc # es) s = run A es (load_prop_file A filename skip_svc s)"

fun is_api_call :: "entry \<Rightarrow> bool" where
  "is_api_call (Main argv) = False"
| "is_api_call e = True"

subsection \<open>An executable instance of the two stores\<close>

text \<open>
  Modelled from the spec: the live table, the persisted store and the parser are not
  among the sources. This instance follows section 6 of the specification, so that the
  model runs on concrete inputs: both stores are lists of pairs with unique names, a
  handle is the name of its entry, find gives "handle-or-null", read gives the name and
  the value, create, update, delete and the mediated set give status 0 or -1, the
  persisted get gives "value-or-empty" and the persisted delete "bool-success". A file is
  given with the pairs its lines parse to.
\<close>

record demo_world =
  live :: "(string \<times> string) list"
  persisted :: "(string \<times> string) list"
  files :: "(string \<times> (string \<times> string) list) list"

definition demo_find :: "string \<Rightarrow> demo_world \<Rightarrow> string option" where
  "demo_find name w = (if name \<in> set (map fst (live w)) then Some name else None)"

definition demo_read :: "string \<Rightarrow> demo_world \<Rightarrow> string \<times> string" where
  "demo_read h w = (h, case map_of (live w) h of None \<Rightarrow> '''' | Some v \<Rightarrow> v)"

definition demo_delete :: "string \<Rightarrow> bool \<Rightarrow> demo_world \<Rightarrow> int \<times> demo_world" where
  "demo_delete name prune w =
     (if name \<in> set (map fst (live w))
      then (0, w\<lparr>live := filter (\<lambda>e. fst e \<noteq> name) (live w)\<rparr>)
      else (- 1, w))"

definition demo_update :: "string \<Rightarrow> string \<Rightarrow> demo_world \<Rightarrow> int \<times> demo_world" where
  "demo_update h v w =
     (if h \<in> set (map fst (live w))
      then (0, w\<lparr>live := map (\<lambda>e. if fst e = h then (h, v) else e) (live w)\<rparr>)
      else (- 1, w))"

definition demo_add :: "string \<Rightarrow> string \<Rightarrow> demo_world \<Rightarrow> int \<times> demo_world" where
  "demo_add name v w =
     (if name \<in> set (map fst (live w)) then (- 1, w)
      else (0, w\<lparr>live := live w @ [(name, v)]\<rparr>))"

definition demo_set :: "string \<Rightarrow> string \<Rightarrow> demo_world \<Rightarrow> int \<times> demo_world" where
  "demo_set name v w =
     (if name \<in> set (map fst (live w)) then demo_update name v w else demo_add name v w)"

definition demo_persist_getprop :: "string \<Rightarrow> demo_world \<Rightarrow> string" where
  "demo_persist_getprop name w = (case map_of (persisted w) name of None \<Rightarrow> '''' | Some v \<Rightarrow> v)"

definition demo_persist_deleteprop :: "string \<Rightarrow> demo_world \<Rightarrow> bool \<times> demo_world" where
  "demo_persist_deleteprop name w =
     (name \<in> set (map fst (persisted w)),
      w\<lparr>persisted := filter (\<lambda>e. fst e \<noteq> name) (persisted w)\<rparr>)"

definition demo_parse_prop_file :: "string \<Rightarrow> demo_world \<Rightarrow> (string \<times> string) list" where
  "demo_parse_prop_file filename w = (case map_of (files w) filename of None \<Rightarrow> [] | Some ps \<Rightarrow> ps)"

definition demo :: "(demo_world, string) adapter" where
  "demo =
     \<lparr>applet_stub_main = False,
      system_property_set = demo_set,
      system_property_read = demo_read,
      system_property_find = demo_find,
      system_property_read_callback = Some demo_read,
      system_property_foreach = (\<lambda>w. map fst (live w)),
      internal_system_property_find = demo_find,
      internal_system_property_delete = demo_delete,
      internal_system_property_update = demo_update,
      internal_system_property_add = demo_add,
      internal_system_property_get_context = (\<lambda>name w. None),
      internal_system_properties_init = (\<lambda>w. (0, w)),
      persist_getprop = demo_persist_getprop,
      persist_getprops = persisted,
      persist_deleteprop = demo_persist_deleteprop,
      parse_prop_file = demo_parse_prop_file\<rparr>"

definition start :: "demo_world \<Rightarrow> (demo_world, string) proc" where
  "start w = \<lparr>world = w, calls = [], out = []\<rparr>"

subsection \<open>What the specification expects, in its own words\<close>

text \<open>
  The pair the live store reads for a handle, and the pairs it yields in its own order.
\<close>

definition read_entry :: "('w, 'h) adapter \<Rightarrow> 'w \<Rightarrow> 'h \<Rightarrow> string \<times> string" where
  "read_entry A w pi =
     (case system_property_read_callback A of Some rd \<Rightarrow> rd pi w
      | None \<Rightarrow> system_property_read A pi w)"

definition live_entries :: "('w, 'h) adapter \<Rightarrow> 'w \<Rightarrow> prop_list" where
  "live_entries A w = map (read_entry A w) (system_property_foreach A w)"

definition context_of :: "('w, 'h) adapter \<Rightarrow> 'w \<Rightarrow> string \<Rightarrow> string" where
  "context_of A w key =
     (case internal_system_property_get_context A key w of None \<Rightarrow> '''' | Some v \<Rightarrow> v)"

text \<open>
  First-seen order: of several pairs with one name the first stays. The enumeration the
  specification describes: the live entries, then the persisted entries whose names the
  live store did not yield.
\<close>

fun first_seen :: "prop_list \<Rightarrow> prop_list" where
  "first_seen [] = []"
| "first_seen (e # rest) = e # first_seen (filter (\<lambda>x. fst x \<noteq> fst e) rest)"

definition spec_enumerate :: "prop_list \<Rightarrow> prop_list \<Rightarrow> prop_list" where
  "spec_enumerate live_pairs persisted_pairs =
     first_seen live_pairs
     @ first_seen (filter (\<lambda>e. fst e \<notin> set (map fst live_pairs)) persisted_pairs)"

text \<open>One line of a file: \<^verbatim>\<open>set_prop\<close> on the pair, its status dropped.\<close>

definition load_step ::
    "('w, 'h) adapter \<Rightarrow> PropFlags \<Rightarrow> string \<times> string \<Rightarrow> ('w, 'h) proc \<Rightarrow> ('w, 'h) proc" where
  "load_step A flags p t = snd (set_prop A (fst p) (snd p) flags t)"

section \<open>Properties of the name validator\<close>

lemma legal_loop_iff:
  "legal_loop name n i \<longleftrightarrow>
     (\<forall>j. i \<le> j \<and> j < n \<longrightarrow>
        is_alnum_or_punct (name ! j) \<and> (name ! j = CHR ''.'' \<longrightarrow> name ! (j - 1) \<noteq> CHR ''.''))"
proof (induction name n i rule: legal_loop.induct)
  case (1 name namelen i)
  let ?ok = "\<lambda>j. is_alnum_or_punct (name ! j) \<and> (name ! j = CHR ''.'' \<longrightarrow> name ! (j - 1) \<noteq> CHR ''.'')"
  show ?case
  proof (cases "i < namelen")
    case False
    then have "\<not> (i \<le> j \<and> j < namelen)" for j by arith
    then have rhs: "\<forall>j. i \<le> j \<and> j < namelen \<longrightarrow> ?ok j"
      by blast
    have "legal_loop name namelen i" using False by (subst legal_loop.simps) simp
    with rhs show ?thesis by blast
  next
    case True
    have split: "(\<forall>j. i \<le> j \<and> j < namelen \<longrightarrow> ?ok j) \<longleftrightarrow>
                 (?ok i \<and> (\<forall>j. i + 1 \<le> j \<and> j < namelen \<longrightarrow> ?ok j))"
    proof
      assume a: "\<forall>j. i \<le> j \<and> j < namelen \<longrightarrow> ?ok j"
      show "?ok i \<and> (\<forall>j. i + 1 \<le> j \<and> j < namelen \<longrightarrow> ?ok j)"
        using a True by simp
    next
      assume b: "?ok i \<and> (\<forall>j. i + 1 \<le> j \<and> j < namelen \<longrightarrow> ?ok j)"
      show "\<forall>j. i \<le> j \<and> j < namelen \<longrightarrow> ?ok j"
      proof (intro allI impI)
        fix j assume j: "i \<le> j \<and> j < namelen"
        show "?ok j"
        proof (cases "j = i")
          case True then show ?thesis using b by simp
        next
          case False
          with j have "i + 1 \<le> j \<and> j < namelen" by simp
          with b show ?thesis by blast
        qed
      qed
    qed
    show ?thesis
      apply (subst legal_loop.simps)
      apply (subst split)
      using True "1.IH"
      by (simp add: is_alnum_or_punct_def)
  qed
qed

lemma sint_length: "n < 2 ^ 31 \<Longrightarrow> sint (word_of_nat n :: 32 word) = int n"
  by (simp add: signed_of_nat signed_take_bit_int_eq_self)

lemma no_double_dot_iff:
  assumes "name \<noteq> []" "name ! 0 \<noteq> CHR ''.''"
  shows "(CHR ''.'', CHR ''.'') \<notin> set (zip name (tl name)) \<longleftrightarrow>
         (\<forall>j < length name. name ! j = CHR ''.'' \<longrightarrow> name ! (j - 1) \<noteq> CHR ''.'')"
proof
  assume L: "(CHR ''.'', CHR ''.'') \<notin> set (zip name (tl name))"
  show "\<forall>j < length name. name ! j = CHR ''.'' \<longrightarrow> name ! (j - 1) \<noteq> CHR ''.''"
  proof (intro allI impI)
    fix j assume j: "j < length name" and d: "name ! j = CHR ''.''"
    have "j \<noteq> 0"
    proof
      assume "j = 0"
      with d assms(2) show False by simp
    qed
    then obtain k where k: "j = Suc k" by (cases j) auto
    show "name ! (j - 1) \<noteq> CHR ''.''"
    proof
      assume "name ! (j - 1) = CHR ''.''"
      with k d j have "(CHR ''.'', CHR ''.'') \<in> set (zip name (tl name))"
        by (auto simp: set_zip nth_tl intro!: exI[of _ k])
      with L show False by simp
    qed
  qed
next
  assume R: "\<forall>j < length name. name ! j = CHR ''.'' \<longrightarrow> name ! (j - 1) \<noteq> CHR ''.''"
  show "(CHR ''.'', CHR ''.'') \<notin> set (zip name (tl name))"
  proof
    assume "(CHR ''.'', CHR ''.'') \<in> set (zip name (tl name))"
    then obtain k where k: "k < length name - 1" "name ! k = CHR ''.''" "name ! Suc k = CHR ''.''"
      by (auto simp: set_zip nth_tl)
    from k(1) have "Suc k < length name" by arith
    with R k(2,3) show False by fastforce
  qed
qed

lemma check_legal_property_name_spec:
  assumes "length name < 2 ^ 31"
  shows "check_legal_property_name name = spec_legal_name name"
proof (cases "name = []")
  case True
  then show ?thesis by (simp add: check_legal_property_name_def spec_legal_name_def)
next
  case False
  then have len: "0 < length name" by simp
  have sl: "sint (word_of_nat (length name) :: 32 word) = int (length name)"
    using assms by (rule sint_length)
  have hd0: "hd name = name ! 0" using False by (simp add: hd_conv_nth)
  have lst: "last name = name ! (length name - 1)" using False by (simp add: last_conv_nth)
  have nn: "nat (int (length name) - 1) = length name - 1" by simp
  show ?thesis
  proof (cases "name ! 0 = CHR ''.''")
    case True
    then show ?thesis using False len
      by (simp add: check_legal_property_name_def spec_legal_name_def sl hd0)
  next
    case nd: False
    have all: "list_all is_alnum_or_punct name \<longleftrightarrow> (\<forall>j < length name. is_alnum_or_punct (name ! j))"
      by (simp add: list_all_length)
    show ?thesis
      using False len nd no_double_dot_iff[OF False nd]
      by (auto simp: check_legal_property_name_def spec_legal_name_def sl hd0 lst nn
            legal_loop_iff all Let_def)
  qed
qed

text \<open>
  For a name shorter than \<open>2 ^ 31\<close> bytes, whose length the \<^verbatim>\<open>int\<close> holds,
  \<^verbatim>\<open>check_legal_property_name\<close> accepts the name exactly when it is not empty,
  neither starts nor ends with a dot, has no two dots in a row, and consists of ASCII
  letters, digits and the characters \<^verbatim>\<open>. - @ : _\<close>. It rejects the empty name,
  \<^verbatim>\<open>.a\<close>, \<^verbatim>\<open>a.\<close> and \<^verbatim>\<open>a..b\<close>, and accepts \<^verbatim>\<open>a.b-c:d@e_f\<close> and
  \<^verbatim>\<open>persist.sys.locale\<close>.
\<close>

theorem check_legal_property_name_grammar:
  assumes "length name < 2 ^ 31"
  shows "check_legal_property_name name = spec_legal_name name
         \<and> \<not> check_legal_property_name ''''
         \<and> \<not> check_legal_property_name ''.a''
         \<and> \<not> check_legal_property_name ''a.''
         \<and> \<not> check_legal_property_name ''a..b''
         \<and> check_legal_property_name ''a.b-c:d@e_f''
         \<and> check_legal_property_name ''persist.sys.locale''"
proof -
  have "check_legal_property_name name = spec_legal_name name"
    using assms by (rule check_legal_property_name_spec)
  moreover have "\<not> check_legal_property_name ''''"
    by (simp add: check_legal_property_name_def)
  moreover have "\<not> check_legal_property_name ''.a''"
    by (simp add: check_legal_property_name_def)
  moreover have "\<not> check_legal_property_name ''a.''"
    by (simp add: check_legal_property_name_def)
  moreover have "\<not> check_legal_property_name ''a..b''"
    by (simp add: check_legal_property_name_def legal_loop.simps)
  moreover have "check_legal_property_name ''a.b-c:d@e_f''"
    by (simp add: check_legal_property_name_def legal_loop.simps)
  moreover have "check_legal_property_name ''persist.sys.locale''"
    by (simp add: check_legal_property_name_def legal_loop.simps)
  ultimately show ?thesis by blast
qed

theorem check_legal_property_name_grammar_witness:
  "length ''ro.build.id'' < 2 ^ 31
   \<and> check_legal_property_name ''ro.build.id''
   \<and> spec_legal_name ''ro.build.id''
   \<and> \<not> spec_legal_name ''ro..build''
   \<and> \<not> check_legal_property_name ''ro..build''"
proof -
  have a: "spec_legal_name ''ro.build.id''"
    by (simp add: spec_legal_name_def is_alnum_or_punct_def)
  have b: "\<not> spec_legal_name ''ro..build''"
    by (simp add: spec_legal_name_def)
  show ?thesis
    using a b check_legal_property_name_grammar [of "''ro.build.id''"]
      check_legal_property_name_grammar [of "''ro..build''"]
    by simp
qed

lemma narrowed_length: "sint (word_of_nat (2 ^ 32 + 1) :: 32 word) = 1"
  by simp

lemma check_legal_narrowed:
  assumes "length name = 2 ^ 32 + 1" and "name ! 0 = CHR ''a''"
  shows "check_legal_property_name name"
proof -
  have l1: "legal_loop name 1 1"
    by (subst legal_loop.simps) simp
  have l0: "legal_loop name 1 0"
    using assms(2) l1 by (subst legal_loop.simps) simp
  show ?thesis
    using assms l0 by (simp add: check_legal_property_name_def narrowed_length)
qed

lemma slash_not_spec_legal: "\<not> spec_legal_name (''a/'' @ rest)"
  by (simp add: spec_legal_name_def is_alnum_or_punct_def)

text \<open>
  Claim C6, where the code departs from it. The claim is the equivalence of
  \<^verbatim>\<open>check_legal_property_name\<close> and the grammar for every name.
  \<^verbatim>\<open>int namelen = strlen(name)\<close> keeps the low 32 bits of the length: the name made
  of \<^verbatim>\<open>a\<close>, \<^verbatim>\<open>/\<close> and \<open>2 ^ 32 - 1\<close> times \<^verbatim>\<open>a\<close> has \<open>2 ^ 32 + 1\<close> bytes, so
  \<open>namelen\<close> is 1, only the first byte is examined, and the name is accepted though it
  holds a slash.
\<close>

theorem check_legal_property_name_narrows_length:
  "length (''a/'' @ replicate (2 ^ 32 - 1) (CHR ''a'')) = 2 ^ 32 + 1
   \<and> check_legal_property_name (''a/'' @ replicate (2 ^ 32 - 1) (CHR ''a''))
   \<and> \<not> spec_legal_name (''a/'' @ replicate (2 ^ 32 - 1) (CHR ''a''))"
proof -
  have len: "length (''a/'' @ replicate n c) = n + 2" for n and c :: char
    by simp
  have n0: "(''a/'' @ rest) ! 0 = CHR ''a''" for rest
    by simp
  have ar: "(2 ^ 32 - 1 + 2 :: nat) = 2 ^ 32 + 1"
    by simp
  have l: "length (''a/'' @ replicate (2 ^ 32 - 1) (CHR ''a'')) = 2 ^ 32 + 1"
    using len [of "2 ^ 32 - 1" "CHR ''a''"] ar by (rule trans)
  from l check_legal_narrowed [OF l n0] slash_not_spec_legal
  show ?thesis by blast
qed

section \<open>Flags\<close>





lemma not_isContext_init: "\<not> isContext PropFlags_init"
  by (simp add: isContext_def PropFlags_init_def)

lemma not_isPersist_init: "\<not> isPersist PropFlags_init"
  by (simp add: isPersist_def PropFlags_init_def)

lemma not_isSkipSvc_init: "\<not> isSkipSvc PropFlags_init"
  by (simp add: isSkipSvc_def PropFlags_init_def)

lemma isSkipSvc_setSkipSvc_init: "isSkipSvc (setSkipSvc PropFlags_init)"
  by (simp add: isSkipSvc_def setSkipSvc_def PropFlags_init_def)

lemma isPersist_setPersist_init: "isPersist (setPersist PropFlags_init)"
  by (simp add: isPersist_def setPersist_def PropFlags_init_def)

lemma not_isContext_setPersist_init: "\<not> isContext (setPersist PropFlags_init)"
  by (simp add: isContext_def setPersist_def PropFlags_init_def)

section \<open>Some legal and illegal names\<close>

lemma legal_ro_build_id: "check_legal_property_name ''ro.build.id''"
  by (simp add: check_legal_property_name_def legal_loop.simps)

lemma legal_persist_sys_locale: "check_legal_property_name ''persist.sys.locale''"
  by (simp add: check_legal_property_name_def legal_loop.simps)

lemma legal_a_b: "check_legal_property_name ''a.b''"
  by (simp add: check_legal_property_name_def legal_loop.simps)

lemma legal_c_d: "check_legal_property_name ''c.d''"
  by (simp add: check_legal_property_name_def legal_loop.simps)

lemma illegal_b_dot_dot_c: "\<not> check_legal_property_name ''b..c''"
  by (simp add: check_legal_property_name_def legal_loop.simps)

section \<open>set\<close>

text \<open>
  Claim C1. For a legal name that starts with \<^verbatim>\<open>ro.\<close> and has an entry in the live
  store, \<^verbatim>\<open>set_prop\<close> finds the entry, deletes it with pruning off, and then creates
  it: by a direct add when skip-service is set, through the service otherwise. The calls
  it makes are these three in this order, the result is the status of the create in the
  store the delete left, and no call is an in-place update.
\<close>

theorem set_prop_existing_ro:
  assumes "check_legal_property_name name"
    and "str_starts name ''ro.''"
    and "internal_system_property_find A name (world s) = Some pi"
  shows "set_prop A name value flags s =
           (let d = internal_system_property_delete A name False (world s);
                r = (if isSkipSvc flags then internal_system_property_add A name value (snd d)
                     else system_property_set A name value (snd d))
            in (fst r,
                s\<lparr>world := snd r,
                  calls := calls s @ [Call_internal_find name, Call_internal_delete name False,
                                      if isSkipSvc flags then Call_internal_add name value
                                      else Call_set name value]\<rparr>))
         \<and> list_all (\<lambda>c. case c of Call_internal_update p v \<Rightarrow> False | _ \<Rightarrow> True)
              (new_calls s (snd (set_prop A name value flags s)))"
  using assms
  by (simp add: set_prop_def query_def effect_def new_calls_def Let_def)

theorem set_prop_existing_ro_witness:
  "set_prop demo ''ro.build.id'' ''ABCDEFGH'' (setSkipSvc PropFlags_init)
     (start \<lparr>live = [(''ro.build.id'', ''A'')], persisted = [], files = []\<rparr>)
   = (0, \<lparr>world = \<lparr>live = [(''ro.build.id'', ''ABCDEFGH'')], persisted = [], files = []\<rparr>,
          calls = [Call_internal_find ''ro.build.id'', Call_internal_delete ''ro.build.id'' False,
                   Call_internal_add ''ro.build.id'' ''ABCDEFGH''],
          out = []\<rparr>)"
proof -
  let ?s = "start \<lparr>live = [(''ro.build.id'', ''A'')], persisted = [], files = []\<rparr>"
  have h2: "str_starts ''ro.build.id'' ''ro.''"
    by (simp add: str_starts_def)
  have h3: "internal_system_property_find demo ''ro.build.id'' (world ?s) = Some ''ro.build.id''"
    by (simp add: demo_def demo_find_def start_def)
  from set_prop_existing_ro [OF legal_ro_build_id h2 h3, of "''ABCDEFGH''" "setSkipSvc PropFlags_init"]
  show ?thesis
    by (simp add: isSkipSvc_setSkipSvc_init Let_def demo_def demo_delete_def demo_add_def start_def)
qed








section \<open>delete\<close>

text \<open>
  Claim C5. For a legal name, \<^verbatim>\<open>delete_prop\<close> deletes from the live store with pruning
  on, and attempts the persisted deletion exactly when use-persisted is set and the name
  starts with \<^verbatim>\<open>persist.\<close>. Its status is 0 when that deletion is attempted and
  succeeds, whatever the live store answered; in every other case it is the status of the
  live store's delete.
\<close>

theorem delete_prop_status:
  assumes "check_legal_property_name name"
  shows "(let d = internal_system_property_delete A name True (world s);
              attempted = (isPersist flags \<and> str_starts name ''persist.'');
              p = persist_deleteprop A name (snd d)
          in fst (delete_prop A name flags s) = (if attempted \<and> fst p then 0 else fst d)
             \<and> new_calls s (snd (delete_prop A name flags s)) =
                 Call_internal_delete name True
                 # (if attempted then [Call_persist_deleteprop name] else []))"
  using assms
  by (simp add: delete_prop_def effect_def new_calls_def Let_def)

theorem delete_prop_status_witness:
  "fst (internal_system_property_delete demo ''persist.sys.locale'' True
          \<lparr>live = [], persisted = [(''persist.sys.locale'', ''en-US'')], files = []\<rparr>) = - 1
   \<and> fst (delete_prop demo ''persist.sys.locale'' (setPersist PropFlags_init)
            (start \<lparr>live = [], persisted = [(''persist.sys.locale'', ''en-US'')], files = []\<rparr>)) = 0
   \<and> fst (delete_prop demo ''persist.sys.locale'' PropFlags_init
            (start \<lparr>live = [], persisted = [(''persist.sys.locale'', ''en-US'')], files = []\<rparr>)) = - 1"
proof -
  let ?w = "\<lparr>live = [], persisted = [(''persist.sys.locale'', ''en-US'')], files = []\<rparr>"
  have st: "str_starts ''persist.sys.locale'' ''persist.''"
    by (simp add: str_starts_def)
  have d: "internal_system_property_delete demo ''persist.sys.locale'' True ?w = (- 1, ?w)"
    by (simp add: demo_def demo_delete_def)
  have p: "fst (persist_deleteprop demo ''persist.sys.locale'' ?w)"
    by (simp add: demo_def demo_persist_deleteprop_def)
  from delete_prop_status [OF legal_persist_sys_locale, of demo "start ?w" "setPersist PropFlags_init"]
    delete_prop_status [OF legal_persist_sys_locale, of demo "start ?w" PropFlags_init]
  show ?thesis
    using st d p isPersist_setPersist_init not_isPersist_init
    by (simp add: Let_def start_def)
qed

section \<open>get\<close>

lemma get_prop_not_found:
  assumes "check_legal_property_name name" "\<not> isContext flags"
    "system_property_find A name (world s) = None"
  shows "get_prop A name flags s = ('''', s\<lparr>calls := calls s @ [Call_find name]\<rparr>)"
  using assms by (simp add: get_prop_def query_def)


text \<open>
  Claim C4, where the code departs from it. For a legal name that the live store does
  not hold, queried without want-context, \<^verbatim>\<open>get_prop\<close> returns the empty string after
  the lookup in the live store and makes no other call: the persisted store is not
  asked, whatever the flags and the prefix of the name are.
\<close>

theorem get_prop_absent_skips_persisted:
  assumes "check_legal_property_name name" "\<not> isContext flags"
    "system_property_find A name (world s) = None"
  shows "get_prop A name flags s = ('''', s\<lparr>calls := calls s @ [Call_find name]\<rparr>)"
  using assms by (rule get_prop_not_found)

theorem get_prop_absent_skips_persisted_witness:
  "isPersist (setPersist PropFlags_init)
   \<and> str_starts ''persist.sys.locale'' ''persist.''
   \<and> persist_getprop demo ''persist.sys.locale''
        \<lparr>live = [], persisted = [(''persist.sys.locale'', ''en-US'')], files = []\<rparr> = ''en-US''
   \<and> get_prop demo ''persist.sys.locale'' (setPersist PropFlags_init)
        (start \<lparr>live = [], persisted = [(''persist.sys.locale'', ''en-US'')], files = []\<rparr>)
      = ('''', \<lparr>world = \<lparr>live = [], persisted = [(''persist.sys.locale'', ''en-US'')], files = []\<rparr>,
               calls = [Call_find ''persist.sys.locale''], out = []\<rparr>)"
proof -
  let ?w = "\<lparr>live = [], persisted = [(''persist.sys.locale'', ''en-US'')], files = []\<rparr>"
  have h3: "system_property_find demo ''persist.sys.locale'' (world (start ?w)) = None"
    by (simp add: demo_def demo_find_def start_def)
  have p: "persist_getprop demo ''persist.sys.locale'' ?w = ''en-US''"
    by (simp add: demo_def demo_persist_getprop_def)
  have st: "str_starts ''persist.sys.locale'' ''persist.''"
    by (simp add: str_starts_def)
  from get_prop_absent_skips_persisted [OF legal_persist_sys_locale not_isContext_setPersist_init h3]
  show ?thesis
    using p st isPersist_setPersist_init by (simp add: start_def)
qed


section \<open>The validator in front of every operation\<close>

lemma get_prop_legal_calls:
  "check_legal_property_name name \<Longrightarrow> new_calls s (snd (get_prop A name flags s)) \<noteq> []"
  by (simp add: get_prop_def get_context_def read_prop_with_cb_def query_def new_calls_def Let_def
        prop_to_string_exec_def split: option.splits prod.splits)

lemma set_prop_legal_calls:
  "check_legal_property_name name \<Longrightarrow> new_calls s (snd (set_prop A name value flags s)) \<noteq> []"
  by (simp add: set_prop_def query_def effect_def new_calls_def Let_def split: option.splits)

lemma delete_prop_legal_calls:
  "check_legal_property_name name \<Longrightarrow> new_calls s (snd (delete_prop A name flags s)) \<noteq> []"
  by (simp add: delete_prop_def effect_def new_calls_def Let_def)

text \<open>
  Claim C9. \<^verbatim>\<open>get_prop\<close>, \<^verbatim>\<open>set_prop\<close> and \<^verbatim>\<open>delete_prop\<close> start with the same
  validator. For a name it rejects they return the empty string, 1 and 1, and the state
  is the one they started in: no call to either store, nothing changed. For a name it
  accepts, each of the three goes on to the stores.
\<close>

theorem illegal_name_touches_nothing:
  "(\<not> check_legal_property_name name \<longrightarrow>
      get_prop A name flags s = ('''', s)
      \<and> set_prop A name value flags s = (1, s)
      \<and> delete_prop A name flags s = (1, s))
   \<and> (check_legal_property_name name \<longrightarrow>
      new_calls s (snd (get_prop A name flags s)) \<noteq> []
      \<and> new_calls s (snd (set_prop A name value flags s)) \<noteq> []
      \<and> new_calls s (snd (delete_prop A name flags s)) \<noteq> [])"
proof (intro conjI impI)
  assume n: "\<not> check_legal_property_name name"
  then show "get_prop A name flags s = ('''', s)" by (simp add: get_prop_def)
  from n show "set_prop A name value flags s = (1, s)" by (simp add: set_prop_def)
  from n show "delete_prop A name flags s = (1, s)" by (simp add: delete_prop_def)
next
  assume l: "check_legal_property_name name"
  then show "new_calls s (snd (get_prop A name flags s)) \<noteq> []" by (rule get_prop_legal_calls)
  from l show "new_calls s (snd (set_prop A name value flags s)) \<noteq> []" by (rule set_prop_legal_calls)
  from l show "new_calls s (snd (delete_prop A name flags s)) \<noteq> []" by (rule delete_prop_legal_calls)
qed

theorem illegal_name_touches_nothing_witness:
  "\<not> check_legal_property_name ''b..c''
   \<and> get_prop demo ''b..c'' (setPersist PropFlags_init)
       (start \<lparr>live = [(''b..c'', ''1'')], persisted = [(''b..c'', ''2'')], files = []\<rparr>)
     = ('''', start \<lparr>live = [(''b..c'', ''1'')], persisted = [(''b..c'', ''2'')], files = []\<rparr>)
   \<and> set_prop demo ''b..c'' ''3'' (setPersist PropFlags_init)
       (start \<lparr>live = [(''b..c'', ''1'')], persisted = [(''b..c'', ''2'')], files = []\<rparr>)
     = (1, start \<lparr>live = [(''b..c'', ''1'')], persisted = [(''b..c'', ''2'')], files = []\<rparr>)
   \<and> delete_prop demo ''b..c'' (setPersist PropFlags_init)
       (start \<lparr>live = [(''b..c'', ''1'')], persisted = [(''b..c'', ''2'')], files = []\<rparr>)
     = (1, start \<lparr>live = [(''b..c'', ''1'')], persisted = [(''b..c'', ''2'')], files = []\<rparr>)
   \<and> check_legal_property_name ''a.b''
   \<and> new_calls (start \<lparr>live = [], persisted = [], files = []\<rparr>)
       (snd (get_prop demo ''a.b'' PropFlags_init (start \<lparr>live = [], persisted = [], files = []\<rparr>)))
     \<noteq> []"
  using illegal_b_dot_dot_c legal_a_b
    illegal_name_touches_nothing [of "''b..c''" demo "setPersist PropFlags_init"
      "start \<lparr>live = [(''b..c'', ''1'')], persisted = [(''b..c'', ''2'')], files = []\<rparr>" "''3''"]
    illegal_name_touches_nothing [of "''a.b''" demo PropFlags_init
      "start \<lparr>live = [], persisted = [], files = []\<rparr>" "''3''"]
  by blast

section \<open>Loading a file\<close>

lemma parse_prop_file_loop_fold:
  "parse_prop_file_loop (\<lambda>key val t. (True, g key val t)) pairs s
   = fold (\<lambda>p t. g (fst p) (snd p) t) pairs s"
  by (induction pairs arbitrary: s) auto

lemma load_file_fold:
  "load_file A filename flags s =
     fold (load_step A flags) (parse_prop_file A filename (world s))
       (s\<lparr>calls := calls s @ [Call_parse_prop_file filename]\<rparr>)"
  by (simp add: load_file_def query_def parse_prop_file_loop_fold load_step_def[abs_def])

lemma load_step_illegal: "\<not> check_legal_property_name (fst p) \<Longrightarrow> load_step A flags p t = t"
  by (simp add: load_step_def set_prop_def)

text \<open>
  Claim C10. \<^verbatim>\<open>load_file\<close> has the file parsed and runs \<^verbatim>\<open>set_prop\<close> on every pair
  in file order, whatever the earlier ones returned: the state it ends in is the one
  reached by the steps of all pairs one after the other. Around any pair \<open>p\<close> of the
  file, the pairs before it have been applied when \<open>p\<close> is tried and the pairs after it
  are applied to what \<open>p\<close> left; when the name of \<open>p\<close> is illegal, that is the state the
  pairs before it left.
\<close>

theorem load_file_continues:
  "load_file A filename flags s =
     fold (load_step A flags) (parse_prop_file A filename (world s))
       (s\<lparr>calls := calls s @ [Call_parse_prop_file filename]\<rparr>)
   \<and> (parse_prop_file A filename (world s) = xs @ p # ys \<longrightarrow>
        load_file A filename flags s =
          fold (load_step A flags) ys
            (snd (set_prop A (fst p) (snd p) flags
               (fold (load_step A flags) xs
                  (s\<lparr>calls := calls s @ [Call_parse_prop_file filename]\<rparr>)))))
   \<and> (parse_prop_file A filename (world s) = xs @ p # ys \<and> \<not> check_legal_property_name (fst p) \<longrightarrow>
        load_file A filename flags s =
          fold (load_step A flags) ys
            (fold (load_step A flags) xs
               (s\<lparr>calls := calls s @ [Call_parse_prop_file filename]\<rparr>)))"
proof (intro conjI impI)
  show "load_file A filename flags s =
     fold (load_step A flags) (parse_prop_file A filename (world s))
       (s\<lparr>calls := calls s @ [Call_parse_prop_file filename]\<rparr>)"
    by (rule load_file_fold)
next
  assume "parse_prop_file A filename (world s) = xs @ p # ys"
  then show "load_file A filename flags s =
          fold (load_step A flags) ys
            (snd (set_prop A (fst p) (snd p) flags
               (fold (load_step A flags) xs
                  (s\<lparr>calls := calls s @ [Call_parse_prop_file filename]\<rparr>))))"
    by (simp add: load_file_fold) (simp add: load_step_def)
next
  assume "parse_prop_file A filename (world s) = xs @ p # ys \<and> \<not> check_legal_property_name (fst p)"
  then show "load_file A filename flags s =
          fold (load_step A flags) ys
            (fold (load_step A flags) xs
               (s\<lparr>calls := calls s @ [Call_parse_prop_file filename]\<rparr>))"
    by (simp add: load_file_fold load_step_illegal)
qed

theorem load_file_continues_witness:
  "load_file demo ''build.prop'' PropFlags_init
     (start \<lparr>live = [], persisted = [],
             files = [(''build.prop'', [(''a.b'', ''1''), (''b..c'', ''2''), (''c.d'', ''3'')])]\<rparr>)
   = \<lparr>world = \<lparr>live = [(''a.b'', ''1''), (''c.d'', ''3'')], persisted = [],
               files = [(''build.prop'', [(''a.b'', ''1''), (''b..c'', ''2''), (''c.d'', ''3'')])]\<rparr>,
      calls = [Call_parse_prop_file ''build.prop'',
               Call_internal_find ''a.b'', Call_set ''a.b'' ''1'',
               Call_internal_find ''c.d'', Call_set ''c.d'' ''3''],
      out = []\<rparr>"
proof -
  let ?w = "\<lparr>live = [], persisted = [],
            files = [(''build.prop'', [(''a.b'', ''1''), (''b..c'', ''2''), (''c.d'', ''3'')])]\<rparr>"
  have parsed: "parse_prop_file demo ''build.prop'' (world (start ?w))
                  = [(''a.b'', ''1'')] @ (''b..c'', ''2'') # [(''c.d'', ''3'')]"
    by (simp add: demo_def demo_parse_prop_file_def start_def)
  have bad: "\<not> check_legal_property_name (fst (''b..c'', ''2''))"
    using illegal_b_dot_dot_c by simp
  from load_file_continues [of demo "''build.prop''" PropFlags_init "start ?w"
      "[(''a.b'', ''1'')]" "(''b..c'', ''2'')" "[(''c.d'', ''3'')]"] parsed bad
  have "load_file demo ''build.prop'' PropFlags_init (start ?w)
        = fold (load_step demo PropFlags_init) [(''c.d'', ''3'')]
            (fold (load_step demo PropFlags_init) [(''a.b'', ''1'')]
               ((start ?w)\<lparr>calls := calls (start ?w) @ [Call_parse_prop_file ''build.prop'']\<rparr>))"
    by blast
  then show ?thesis
    using legal_a_b legal_c_d not_isSkipSvc_init
    by (simp add: load_step_def set_prop_def query_def effect_def str_starts_def demo_def
          demo_find_def demo_set_def demo_add_def start_def)
qed

section \<open>Enumeration\<close>

lemma collect_all_first_seen:
  "collect_all xs acc = acc @ first_seen (filter (\<lambda>e. fst e \<notin> set (map fst acc)) xs)"
proof (induction xs arbitrary: acc)
  case Nil
  then show ?case by simp
next
  case (Cons e xs)
  obtain k v where e: "e = (k, v)" by (cases e)
  show ?case
  proof (cases "k \<in> set (map fst acc)")
    case True
    then show ?thesis using Cons.IH[of acc] by (simp add: e prop_collector_exec_def)
  next
    case False
    have f: "filter (\<lambda>e. fst e \<noteq> k \<and> fst e \<notin> fst ` set acc) xs
             = filter (\<lambda>x. fst x \<notin> fst ` set acc \<and> fst x \<noteq> k) xs"
      by (rule filter_cong) auto
    show ?thesis
      using False Cons.IH[of "acc @ [(k, v)]"] by (simp add: e prop_collector_exec_def f)
  qed
qed

lemma set_first_seen: "fst ` set (first_seen xs) = fst ` set xs"
proof (induction xs rule: first_seen.induct)
  case 1
  then show ?case by simp
next
  case (2 e rest)
  then show ?case by auto
qed

lemma collect_all_spec: "collect_all ps (collect_all ls []) = spec_enumerate ls ps"
proof -
  have "collect_all ls [] = first_seen ls"
    using collect_all_first_seen[of ls "[]"] by simp
  then show ?thesis
    using collect_all_first_seen[of ps "first_seen ls"] set_first_seen[of ls]
    by (simp add: spec_enumerate_def)
qed

lemma read_prop_with_cb_eq:
  "read_prop_with_cb A pi s =
     (read_entry A (world s) pi,
      s\<lparr>calls := calls s @ [case system_property_read_callback A of
                              Some rd \<Rightarrow> Call_read_callback pi | None \<Rightarrow> Call_read pi]\<rparr>)"
  by (simp add: read_prop_with_cb_def read_entry_def query_def split: option.splits)

lemma foreach_read_eq:
  "fst (foreach_read A pis list s) = collect_all (map (read_entry A (world s)) pis) list
   \<and> world (snd (foreach_read A pis list s)) = world s
   \<and> out (snd (foreach_read A pis list s)) = out s"
proof (induction pis arbitrary: list s)
  case Nil
  then show ?case by simp
next
  case (Cons pi pis)
  obtain n v where r: "read_entry A (world s) pi = (n, v)" by (cases "read_entry A (world s) pi")
  show ?case
    using Cons.IH by (simp add: read_prop_with_cb_eq r)
qed

lemma print_loop_out:
  "out (print_loop A flags list s) =
     out s @ map (\<lambda>e. printf_line (fst e)
                     (if isContext flags then context_of A (world s) (fst e) else snd e)) list
   \<and> world (print_loop A flags list s) = world s"
proof (induction list arbitrary: s)
  case Nil
  then show ?case by simp
next
  case (Cons e list)
  obtain k v where e: "e = (k, v)" by (cases e)
  show ?case
    using Cons.IH
    by (simp add: e get_context_def query_def context_of_def)
qed

text \<open>
  Claim C2. \<^verbatim>\<open>print_props\<close> prints one line for each pair of the enumeration the
  specification describes, in its order: the pairs the live store yields, the first of
  each name, then (when use-persisted is set) the persisted pairs whose names the live
  store did not yield, in the persisted store's order. A name the live store yielded is
  printed once, with the live value. With want-context the value printed is the context
  of the name and the order is the same. For live A=1, B=2 and persisted B=9, C=3 the
  lines are A=1, B=2, C=3.
\<close>

theorem print_props_order:
  "out (print_props A flags s) =
     out s @ map (\<lambda>e. printf_line (fst e)
                     (if isContext flags then context_of A (world s) (fst e) else snd e))
               (spec_enumerate (live_entries A (world s))
                  (if isPersist flags then persist_getprops A (world s) else []))
   \<and> out (print_props demo (setPersist PropFlags_init)
            (start \<lparr>live = [(''A'', ''1''), (''B'', ''2'')],
                    persisted = [(''B'', ''9''), (''C'', ''3'')], files = []\<rparr>))
     = [printf_line ''A'' ''1'', printf_line ''B'' ''2'', printf_line ''C'' ''3'']"
proof
  obtain l t where fr: "foreach_read A (system_property_foreach A (world s)) []
            (s\<lparr>calls := calls s @ [Call_foreach]\<rparr>) = (l, t)"
    by (cases "foreach_read A (system_property_foreach A (world s)) []
                 (s\<lparr>calls := calls s @ [Call_foreach]\<rparr>)")
  from foreach_read_eq[of A "system_property_foreach A (world s)" "[]"
      "s\<lparr>calls := calls s @ [Call_foreach]\<rparr>"] fr
  have l: "l = collect_all (live_entries A (world s)) []"
    and tw: "world t = world s" and t_out: "out t = out s"
    by (simp_all add: live_entries_def)
  have sp0: "spec_enumerate ls [] = collect_all ls []" for ls
    using collect_all_spec[of "[]" ls] by simp
  show "out (print_props A flags s) =
     out s @ map (\<lambda>e. printf_line (fst e)
                     (if isContext flags then context_of A (world s) (fst e) else snd e))
               (spec_enumerate (live_entries A (world s))
                  (if isPersist flags then persist_getprops A (world s) else []))"
    by (simp add: print_props_def query_def fr print_loop_out l tw t_out collect_all_spec sp0)
next
  show "out (print_props demo (setPersist PropFlags_init)
            (start \<lparr>live = [(''A'', ''1''), (''B'', ''2'')],
                    persisted = [(''B'', ''9''), (''C'', ''3'')], files = []\<rparr>))
     = [printf_line ''A'' ''1'', printf_line ''B'' ''2'', printf_line ''C'' ''3'']"
    by (simp add: print_props_def query_def demo_def start_def read_prop_with_cb_def
          prop_collector_exec_def demo_read_def isPersist_def setPersist_def PropFlags_init_def
          isContext_def)
qed

section \<open>Initialisation\<close>

lemma init_count_get_prop: "init_count (snd (get_prop A name flags s)) = init_count s"
  by (simp add: get_prop_def get_context_def read_prop_with_cb_def query_def init_count_def Let_def
        prop_to_string_exec_def split: option.splits prod.splits)

lemma init_count_set_prop: "init_count (snd (set_prop A name value flags s)) = init_count s"
  by (simp add: set_prop_def query_def effect_def init_count_def Let_def split: option.splits)

lemma init_count_delete_prop: "init_count (snd (delete_prop A name flags s)) = init_count s"
  by (simp add: delete_prop_def effect_def init_count_def Let_def)

lemma init_count_load_steps: "init_count (fold (load_step A flags) pairs s) = init_count s"
  by (induction pairs arbitrary: s) (simp_all add: load_step_def init_count_set_prop)

lemma init_count_load_file: "init_count (load_file A filename flags s) = init_count s"
  by (simp add: load_file_fold init_count_load_steps) (simp add: init_count_def)

lemma init_count_InitOnce: "init_count (InitOnce A s) = init_count s + 1"
  by (simp add: InitOnce_def Initialize_def effect_def init_count_def)

text \<open>
  Claim C3, where the code departs from it. Each of the four API functions calls
  \<^verbatim>\<open>InitOnce\<close>, and each call of \<^verbatim>\<open>InitOnce\<close> runs the constructor of
  \<^verbatim>\<open>Initialize\<close>: after a process has made \<open>n\<close> API calls, \<^verbatim>\<open>__system_properties_init\<close>
  has run \<open>n\<close> more times, not once.
\<close>

theorem InitOnce_runs_at_every_call:
  assumes "list_all is_api_call es"
  shows "init_count (run A es s) = init_count s + length es"
  using assms
proof (induction es arbitrary: s)
  case Nil
  then show ?case by simp
next
  case (Cons e es)
  then have rest: "list_all is_api_call es" by simp
  show ?case
  proof (cases e)
    case (Main argv)
    with Cons.prems show ?thesis by simp
  next
    case (Get_prop name persist)
    then show ?thesis
      using Cons.IH[OF rest]
      by (simp add: api_get_prop_def init_count_get_prop init_count_InitOnce)
  next
    case (Delete_prop name persist)
    then show ?thesis
      using Cons.IH[OF rest]
      by (simp add: api_delete_prop_def init_count_delete_prop init_count_InitOnce)
  next
    case (Set_prop name "value" skip_svc)
    then show ?thesis
      using Cons.IH[OF rest]
      by (simp add: api_set_prop_def init_count_set_prop init_count_InitOnce)
  next
    case (Load_prop_file filename skip_svc)
    then show ?thesis
      using Cons.IH[OF rest]
      by (simp add: load_prop_file_def init_count_load_file init_count_InitOnce)
  qed
qed

theorem InitOnce_runs_at_every_call_witness:
  "init_count (run demo [Get_prop ''ro.build.id'' False, Get_prop ''ro.build.id'' False]
                 (start \<lparr>live = [], persisted = [], files = []\<rparr>)) = 2"
proof -
  have a: "list_all is_api_call [Get_prop ''ro.build.id'' False, Get_prop ''ro.build.id'' False]"
    by simp
  have b: "init_count (start \<lparr>live = [], persisted = [], files = []\<rparr>) = 0"
    by (simp add: init_count_def start_def)
  from InitOnce_runs_at_every_call [OF a, of demo "start \<lparr>live = [], persisted = [], files = []\<rparr>"] b
  show ?thesis by simp
qed


end
